theory Spec2Isabelle
  imports Main "HOL-Library.AList"
begin

section \<open>Data model of \<open>src/index.ts\<close>\<close>

text \<open>
  The objects the handler reads. Only the fields \<open>updatePullRequest\<close> touches are kept.
  \<open>mergeable\<close> is the platform's tri-state flag: \<open>None\<close> is JavaScript's \<open>null\<close>.
  \<open>submitted_at\<close> is the value of \<open>new Date(review.submitted_at).getTime()\<close>, the
  milliseconds the comparator of \<open>sort\<close> subtracts. A check run's \<open>conclusion\<close> is
  \<open>None\<close> for \<open>null\<close>.
\<close>

record PullRequest =
  base_repo_name :: string
  base_user_login :: string
  number :: int
  state :: string
  merged :: bool
  mergeable :: "bool option"
  head_sha :: string

record Review =
  user_login :: string
  review_state :: string
  submitted_at :: int

record CheckRun =
  name :: string
  status :: string
  conclusion :: "string option"

record Config =
  min_approvals :: int
  max_requested_changes :: int

definition defaultConfig :: Config where
  "defaultConfig = \<lparr>min_approvals = 1, max_requested_changes = 0\<rparr>"

text \<open>
  \<open>context.github\<close>: the answers of the platform to the requests of one run. A rejected
  request is \<open>Inl\<close>. Every endpoint is a function of the request's parameters.
\<close>

datatype error = RequestFailed int

record github =
  pullRequests_get :: "string \<Rightarrow> string \<Rightarrow> int \<Rightarrow> error + PullRequest"
  pullRequests_getReviews :: "string \<Rightarrow> string \<Rightarrow> int \<Rightarrow> error + Review list"
  checks_listForRef :: "string \<Rightarrow> string \<Rightarrow> string \<Rightarrow> string \<Rightarrow> error + CheckRun list"
  pullRequests_merge :: "string \<Rightarrow> string \<Rightarrow> int \<Rightarrow> string \<Rightarrow> error + unit"

text \<open>
  What a run does to the outside: the lines it logs, the timer it sets and the merge
  request it issues. A log line is \<open>app.log(`${repo}/${owner} #${number}: ${msg}`)\<close>; the
  message is one constructor per template of the source, with the interpolated values as
  arguments. \<open>SetTimeout pullRequest config 60000\<close> is the timer whose callback is
  \<open>updatePullRequest(context, pullRequest, config)\<close>: the closure holds the two objects.
\<close>

datatype msg =
    Not_open
  | Already_merged
  | Not_mergeable "bool option"
  | Reviews "(string \<times> string) list"
  | Changes_requested nat int
  | Not_enough_approvals nat int
  | Checks "(string \<times> string \<times> string option) list"
  | Pending_checks
  | Conclusions "(string \<times> bool) list"
  | Blocking_checks
  | Merge_pull_request

datatype effect =
    Log string string int msg
  | SetTimeout PullRequest Config nat
  | Merge string string int string

section \<open>The review and check reductions\<close>

text \<open>
  \<open>reviews.sort(cmp).reduce((state, review) => ({...state, [review.user.login]: review.state}), {})\<close>.
  \<open>Array.prototype.sort\<close> is stable (ECMAScript 2019), as \<open>sort_key\<close> is. The object
  literal keeps a key that is already present at its place and appends a new one, which
  is \<open>AList.update\<close>. (JavaScript enumerates keys that are array indices first; the
  order of the entries shows only in the summary line that is logged, the counts below
  do not depend on it.)
\<close>

definition latestReviews :: "Review list \<Rightarrow> (string \<times> string) list" where
  "latestReviews reviews =
     fold (\<lambda>review state. AList.update (user_login review) (review_state review) state)
       (sort_key submitted_at reviews) []"

definition changesRequestedCount :: "(string \<times> string) list \<Rightarrow> nat" where
  "changesRequestedCount latest =
     length (filter (\<lambda>reviewState. reviewState = ''CHANGES_REQUESTED'') (map snd latest))"

definition approvalCount :: "(string \<times> string) list \<Rightarrow> nat" where
  "approvalCount latest =
     length (filter (\<lambda>reviewState. reviewState = ''APPROVED'') (map snd latest))"

definition allChecksCompleted :: "CheckRun list \<Rightarrow> bool" where
  "allChecksCompleted checkRuns = list_all (\<lambda>checkRun. status checkRun = ''completed'') checkRuns"

text \<open>The property key a computed member \<open>[checkRun.conclusion]\<close> denotes.\<close>

definition propertyKey :: "string option \<Rightarrow> string" where
  "propertyKey c = (case c of None \<Rightarrow> ''null'' | Some s \<Rightarrow> s)"

definition checkConclusions :: "CheckRun list \<Rightarrow> (string \<times> bool) list" where
  "checkConclusions checkRuns =
     fold (\<lambda>checkRun result. AList.update (propertyKey (conclusion checkRun)) True result)
       checkRuns []"

text \<open>A member read \<open>checkConclusions.failure\<close> is \<open>true\<close> or \<open>undefined\<close>.\<close>

definition truthy :: "bool option \<Rightarrow> bool" where
  "truthy v = (v = Some True)"

definition checksBlocking :: "(string \<times> bool) list \<Rightarrow> bool" where
  "checksBlocking cc =
     (truthy (map_of cc ''failure'') \<or> truthy (map_of cc ''cancelled'') \<or>
      truthy (map_of cc ''timed_out'') \<or> truthy (map_of cc ''action_required''))"

section \<open>The handler\<close>

text \<open>
  \<open>updatePullRequest\<close>: the effects of the run in order, and the error that ended it, if
  one did. A rejected request ends the run where it stands.
\<close>

definition updatePullRequest :: "github \<Rightarrow> PullRequest \<Rightarrow> Config \<Rightarrow> effect list \<times> error option" where
  "updatePullRequest gh pullRequest config =
     (let repo = base_repo_name pullRequest;
          owner = base_user_login pullRequest;
          num = number pullRequest;
          log = Log repo owner num
      in
      if state pullRequest \<noteq> ''open'' then ([log Not_open], None)
      else if merged pullRequest then ([log Already_merged], None)
      else if \<not> truthy (mergeable pullRequest) then
        ([log (Not_mergeable (mergeable pullRequest))], None)
      else
        case pullRequests_getReviews gh owner repo num of
          Inl e \<Rightarrow> ([], Some e)
        | Inr reviews \<Rightarrow>
           (let latest = latestReviews reviews;
                l1 = [log (Reviews latest)]
            in
            if int (changesRequestedCount latest) > min_approvals config then
              (l1 @ [log (Changes_requested (changesRequestedCount latest) (min_approvals config))],
               None)
            else if int (approvalCount latest) < max_requested_changes config then
              (l1 @ [log (Not_enough_approvals (approvalCount latest) (max_requested_changes config))],
               None)
            else
              case checks_listForRef gh owner repo (head_sha pullRequest) ''latest'' of
                Inl e \<Rightarrow> (l1, Some e)
              | Inr checkRuns \<Rightarrow>
                 (let l2 = l1 @ [log (Checks (map (\<lambda>checkRun.
                             (name checkRun, status checkRun, conclusion checkRun)) checkRuns))]
                  in
                  if \<not> allChecksCompleted checkRuns then
                    (l2 @ [log Pending_checks, SetTimeout pullRequest config 60000], None)
                  else
                    (let cc = checkConclusions checkRuns;
                         l3 = l2 @ [log (Conclusions cc)]
                     in
                     if checksBlocking cc then (l3 @ [log Blocking_checks], None)
                     else
                       case pullRequests_merge gh owner repo num ''merge'' of
                         Inl e \<Rightarrow> (l3 @ [Merge owner repo num ''merge''], Some e)
                       | Inr _ \<Rightarrow>
                          (l3 @ [Merge owner repo num ''merge'', log Merge_pull_request],
                           None)))))"

text \<open>
  The callback of a timer, run later against the platform as it answers then.
\<close>

fun runTimer :: "github \<Rightarrow> effect \<Rightarrow> effect list \<times> error option" where
  "runTimer gh (SetTimeout pullRequest config delay) = updatePullRequest gh pullRequest config"
| "runTimer gh _ = ([], None)"

text \<open>
  \<open>updateCheckPullRequests\<close>: each pull request of a check event is fetched by
  (owner, repo, number) and handed to \<open>updatePullRequest\<close>; the loop stops at the first
  rejected request.
\<close>

fun updateCheckPullRequests ::
  "github \<Rightarrow> string \<Rightarrow> string \<Rightarrow> int list \<Rightarrow> Config \<Rightarrow> effect list \<times> error option" where
  "updateCheckPullRequests gh owner repo [] config = ([], None)"
| "updateCheckPullRequests gh owner repo (num # rest) config =
     (case pullRequests_get gh owner repo num of
        Inl e \<Rightarrow> ([], Some e)
      | Inr pullRequest \<Rightarrow>
         (case updatePullRequest gh pullRequest config of
            (t, Some e) \<Rightarrow> (t, Some e)
          | (t, None) \<Rightarrow>
             (case updateCheckPullRequests gh owner repo rest config of
                (t', r) \<Rightarrow> (t @ t', r))))"

section \<open>Reading a run\<close>

text \<open>
  The merge requests and the timers of a run, the last line it logged, and the decision
  the run amounts to: \<open>MERGE\<close> when it issued the merge request, nothing when a rejected
  request ended it before, \<open>PENDING\<close> with the delay when it set a timer, and otherwise
  \<open>BLOCKED\<close> with the last line logged.
\<close>

fun isMerge :: "effect \<Rightarrow> bool" where
  "isMerge (Merge _ _ _ _) = True"
| "isMerge _ = False"

fun isTimer :: "effect \<Rightarrow> bool" where
  "isTimer (SetTimeout _ _ _) = True"
| "isTimer _ = False"

definition merges :: "effect list \<Rightarrow> effect list" where
  "merges t = filter isMerge t"

definition timers :: "effect list \<Rightarrow> effect list" where
  "timers t = filter isTimer t"

fun lastLog :: "effect list \<Rightarrow> msg option" where
  "lastLog [] = None"
| "lastLog (e # es) =
     (case lastLog es of
        Some m \<Rightarrow> Some m
      | None \<Rightarrow> (case e of Log _ _ _ m \<Rightarrow> Some m | _ \<Rightarrow> None))"

datatype MergeDecision = MERGE | BLOCKED msg | PENDING nat

definition decision :: "effect list \<times> error option \<Rightarrow> MergeDecision option" where
  "decision run =
     (case run of (t, err) \<Rightarrow>
        if merges t \<noteq> [] then Some MERGE
        else if err \<noteq> None then None
        else
          case timers t of
            SetTimeout _ _ delay # _ \<Rightarrow> Some (PENDING delay)
          | _ \<Rightarrow> (case lastLog t of Some m \<Rightarrow> Some (BLOCKED m) | None \<Rightarrow> None))"

section \<open>Concrete inputs\<close>

text \<open>
  An open, unmerged, mergeable pull request; three check runs; a platform that answers
  every request with the given reviews and check runs and accepts a merge; review lists.
  \<open>gh_late\<close> is a platform on which the pull request has been closed meanwhile and its
  one check has succeeded. \<open>gh_pushed\<close> is a platform on which a commit has been pushed
  meanwhile: the head is \<open>def\<close>, whose check failed, while the check of the former head
  \<open>abc\<close> has succeeded.
\<close>

definition pr_open :: PullRequest where
  "pr_open = \<lparr>base_repo_name = ''app'', base_user_login = ''acme'', number = 7,
     state = ''open'', merged = False, mergeable = Some True, head_sha = ''abc''\<rparr>"

definition check_pending :: CheckRun where
  "check_pending = \<lparr>name = ''ci'', status = ''in_progress'', conclusion = None\<rparr>"

definition check_success :: CheckRun where
  "check_success = \<lparr>name = ''ci'', status = ''completed'', conclusion = Some ''success''\<rparr>"

definition check_failure :: CheckRun where
  "check_failure = \<lparr>name = ''lint'', status = ''completed'', conclusion = Some ''failure''\<rparr>"

definition gh_with :: "Review list \<Rightarrow> CheckRun list \<Rightarrow> github" where
  "gh_with reviews checkRuns =
     \<lparr>pullRequests_get = (\<lambda>_ _ _. Inl (RequestFailed 404)),
      pullRequests_getReviews = (\<lambda>_ _ _. Inr reviews),
      checks_listForRef = (\<lambda>_ _ _ _. Inr checkRuns),
      pullRequests_merge = (\<lambda>_ _ _ _. Inr ())\<rparr>"

definition gh_late :: github where
  "gh_late =
     \<lparr>pullRequests_get = (\<lambda>_ _ _. Inr (pr_open\<lparr>state := ''closed''\<rparr>)),
      pullRequests_getReviews = (\<lambda>_ _ _. Inr []),
      checks_listForRef = (\<lambda>_ _ _ _. Inr [check_success]),
      pullRequests_merge = (\<lambda>_ _ _ _. Inr ())\<rparr>"

definition gh_pushed :: github where
  "gh_pushed =
     \<lparr>pullRequests_get = (\<lambda>_ _ _. Inr (pr_open\<lparr>head_sha := ''def''\<rparr>)),
      pullRequests_getReviews = (\<lambda>_ _ _. Inr []),
      checks_listForRef = (\<lambda>_ _ ref _.
        if ref = ''abc'' then Inr [check_success] else Inr [check_failure]),
      pullRequests_merge = (\<lambda>_ _ _ _. Inr ())\<rparr>"

definition reviews_tie :: "Review list" where
  "reviews_tie =
     [\<lparr>user_login = ''alice'', review_state = ''APPROVED'', submitted_at = 5\<rparr>,
      \<lparr>user_login = ''alice'', review_state = ''CHANGES_REQUESTED'', submitted_at = 5\<rparr>,
      \<lparr>user_login = ''bob'', review_state = ''COMMENTED'', submitted_at = 1\<rparr>,
      \<lparr>user_login = ''alice'', review_state = ''DISMISSED'', submitted_at = 2\<rparr>]"

definition reviews_two_rejections :: "Review list" where
  "reviews_two_rejections =
     [\<lparr>user_login = ''alice'', review_state = ''CHANGES_REQUESTED'', submitted_at = 1\<rparr>,
      \<lparr>user_login = ''bob'', review_state = ''CHANGES_REQUESTED'', submitted_at = 2\<rparr>,
      \<lparr>user_login = ''carol'', review_state = ''APPROVED'', submitted_at = 3\<rparr>]"

definition reviews_once :: "Review list" where
  "reviews_once =
     [\<lparr>user_login = ''alice'', review_state = ''APPROVED'', submitted_at = 9\<rparr>]"

definition reviews_twice :: "Review list" where
  "reviews_twice =
     [\<lparr>user_login = ''alice'', review_state = ''APPROVED'', submitted_at = 4\<rparr>,
      \<lparr>user_login = ''alice'', review_state = ''COMMENTED'', submitted_at = 2\<rparr>]"

section \<open>Facts about the reductions\<close>

lemmas run_defs = updatePullRequest_def decision_def merges_def timers_def truthy_def Let_def

text \<open>
  A fold of \<open>AList.update\<close> over a list: the value at a key is that of the last
  element with the key, the keys are those of the elements, each once.
\<close>

lemma map_of_fold_update:
  "map_of (fold (\<lambda>x al. AList.update (k x) (v x) al) xs al0) u =
     (if filter (\<lambda>x. k x = u) xs = [] then map_of al0 u
      else Some (v (last (filter (\<lambda>x. k x = u) xs))))"
proof (induction xs arbitrary: al0)
  case Nil
  then show ?case by simp
next
  case (Cons x xs)
  show ?case
    by (simp add: Cons.IH update_conv')
qed

lemma keys_fold_update:
  "fst ` set (fold (\<lambda>x al. AList.update (k x) (v x) al) xs al0) = k ` set xs \<union> fst ` set al0"
  by (induction xs arbitrary: al0) (auto simp: dom_update)

lemma distinct_fold_update:
  "distinct (map fst al0) \<Longrightarrow>
   distinct (map fst (fold (\<lambda>x al. AList.update (k x) (v x) al) xs al0))"
  by (induction xs arbitrary: al0) (auto simp: distinct_update)

lemma last_filter_nth:
  assumes "i < length xs" and "Q (xs ! i)"
    and "\<And>j. i < j \<Longrightarrow> j < length xs \<Longrightarrow> \<not> Q (xs ! j)"
  shows "last (filter Q xs) = xs ! i"
proof -
  have split: "xs = take i xs @ xs ! i # drop (Suc i) xs"
    using assms(1) by (rule id_take_nth_drop)
  have "filter Q (drop (Suc i) xs) = []"
  proof -
    have "\<not> Q y" if "y \<in> set (drop (Suc i) xs)" for y
    proof -
      from that obtain n where n: "n < length (drop (Suc i) xs)" "y = drop (Suc i) xs ! n"
        by (auto simp: in_set_conv_nth)
      then have "y = xs ! (Suc i + n)" and "Suc i + n < length xs" by auto
      then show ?thesis using assms(3) [of "Suc i + n"] by simp
    qed
    then show ?thesis by (simp add: filter_empty_conv)
  qed
  then have "filter Q xs = filter Q (take i xs) @ [xs ! i]"
    using assms(2) by (subst split) simp
  then show ?thesis by simp
qed


lemma last_filter_last:
  "xs \<noteq> [] \<Longrightarrow> Q (last xs) \<Longrightarrow> last (filter Q xs) = last xs"
  by (cases xs rule: rev_cases) auto

lemma latest_wins:
  fixes rs :: "Review list"
  assumes i: "i < length rs"
    and dom: "\<And>j. j < length rs \<Longrightarrow> user_login (rs ! j) = user_login (rs ! i) \<Longrightarrow>
        submitted_at (rs ! j) < submitted_at (rs ! i) \<or>
        (submitted_at (rs ! j) = submitted_at (rs ! i) \<and> j \<le> i)"
  shows "last (filter (\<lambda>r. user_login r = user_login (rs ! i)) (sort_key submitted_at rs)) = rs ! i"
proof -
  define u where "u = user_login (rs ! i)"
  define k where "k = submitted_at (rs ! i)"
  define S where "S = sort_key submitted_at rs"
  define L where "L = filter (\<lambda>r. user_login r = u) S"
  have ri: "rs ! i \<in> set L"
    using i by (simp add: L_def S_def u_def)
  then have ne: "L \<noteq> []" by auto
  have sorted_L: "sorted (map submitted_at L)"
    unfolding L_def S_def by (simp add: sorted_filter)
  define z where "z = last L"
  have z_in: "z \<in> set L" unfolding z_def using ne by simp
  have z_ge: "k \<le> submitted_at z"
  proof -
    from ri obtain n where n: "n < length L" "L ! n = rs ! i"
      by (auto simp: in_set_conv_nth)
    have "map submitted_at L ! n \<le> map submitted_at L ! (length L - 1)"
      using sorted_L n(1) by (intro sorted_nth_mono) auto
    then show ?thesis
      using n ne by (simp add: z_def last_conv_nth k_def)
  qed
  have z_le: "submitted_at z \<le> k"
  proof -
    from z_in have "z \<in> set rs" and zu: "user_login z = u"
      by (auto simp: L_def S_def)
    then obtain j where "j < length rs" "rs ! j = z"
      by (auto simp: in_set_conv_nth)
    then show ?thesis
      using dom [of j] zu by (auto simp: u_def k_def)
  qed
  have zk: "submitted_at z = k" using z_ge z_le by simp
  have "last (filter (\<lambda>y. submitted_at y = k) L) = z"
    using ne zk unfolding z_def by (rule last_filter_last)
  moreover have "filter (\<lambda>y. submitted_at y = k) L =
      filter (\<lambda>r. user_login r = u \<and> submitted_at r = k) rs"
  proof -
    have "filter (\<lambda>y. submitted_at y = k) L =
        filter (\<lambda>r. user_login r = u) (filter (\<lambda>y. submitted_at y = k) S)"
      unfolding L_def by (simp add: conj_commute)
    also have "\<dots> = filter (\<lambda>r. user_login r = u) (filter (\<lambda>y. submitted_at y = k) rs)"
      unfolding S_def by (simp only: sort_key_stable)
    finally show ?thesis by (simp add: conj_commute)
  qed
  moreover have "last (filter (\<lambda>r. user_login r = u \<and> submitted_at r = k) rs) = rs ! i"
  proof (rule last_filter_nth [OF i])
    show "user_login (rs ! i) = u \<and> submitted_at (rs ! i) = k"
      by (simp add: u_def k_def)
  next
    fix j assume "i < j" "j < length rs"
    then show "\<not> (user_login (rs ! j) = u \<and> submitted_at (rs ! j) = k)"
      using dom [of j] by (auto simp: u_def k_def)
  qed
  ultimately show ?thesis
    by (simp add: z_def L_def S_def u_def)
qed


lemma values_fold_update:
  "snd ` set al0 \<subseteq> {c} \<Longrightarrow>
   snd ` set (fold (\<lambda>x al. AList.update (k x) c al) xs al0) \<subseteq> {c}"
proof (induction xs arbitrary: al0)
  case Nil
  then show ?case by simp
next
  case (Cons x xs)
  have "snd ` set (AList.update (k x) c al0) \<subseteq> {c}"
    using Cons.prems by (induction al0) auto
  then show ?case by (simp add: Cons.IH)
qed

lemma propertyKey_Some:
  "s \<noteq> ''null'' \<Longrightarrow> propertyKey c = s \<longleftrightarrow> c = Some s"
  by (cases c) (auto simp: propertyKey_def)

lemma map_of_checkConclusions:
  "map_of (checkConclusions checkRuns) key =
     (if key \<in> propertyKey ` conclusion ` set checkRuns then Some True else None)"
proof -
  have "filter (\<lambda>x. propertyKey (conclusion x) = key) checkRuns = [] \<longleftrightarrow>
        key \<notin> propertyKey ` conclusion ` set checkRuns"
    by (auto simp: filter_empty_conv)
  then show ?thesis
    unfolding checkConclusions_def by (simp add: map_of_fold_update)
qed

lemma checksBlocking_iff:
  "checksBlocking (checkConclusions checkRuns) \<longleftrightarrow>
     (\<exists>r\<in>set checkRuns. conclusion r \<in>
        {Some ''failure'', Some ''cancelled'', Some ''timed_out'', Some ''action_required''})"
proof -
  have k: "truthy (map_of (checkConclusions checkRuns) s) \<longleftrightarrow>
        (\<exists>r\<in>set checkRuns. conclusion r = Some s)" if "s \<noteq> ''null''" for s
  proof -
    have "s \<in> propertyKey ` conclusion ` set checkRuns \<longleftrightarrow>
        (\<exists>r\<in>set checkRuns. propertyKey (conclusion r) = s)"
      by auto
    also have "\<dots> \<longleftrightarrow> (\<exists>r\<in>set checkRuns. conclusion r = Some s)"
      using that by (simp add: propertyKey_Some)
    finally show ?thesis
      by (simp add: truthy_def map_of_checkConclusions)
  qed
  show ?thesis
    unfolding checksBlocking_def by (simp add: k) blast
qed

lemma finite_map_of_eq: "finite {k. map_of al k = Some v}"
proof -
  have "{k. map_of al k = Some v} \<subseteq> fst ` set al"
    by (auto dest: map_of_SomeD intro: rev_image_eqI)
  then show ?thesis by (rule finite_subset) simp
qed

lemma count_values_card:
  "distinct (map fst al) \<Longrightarrow>
   length (filter (\<lambda>s. s = v) (map snd al)) = card {k. map_of al k = Some v}"
proof (induction al)
  case Nil
  then show ?case by simp
next
  case (Cons p al)
  obtain k0 v0 where p: "p = (k0, v0)" by (cases p)
  from Cons.prems p have fresh: "k0 \<notin> fst ` set al" and d: "distinct (map fst al)"
    by auto
  have none: "map_of al k0 = None"
    using fresh by (simp add: map_of_eq_None_iff)
  define A where "A = {k. map_of al k = Some v}"
  have fin: "finite A" unfolding A_def by (rule finite_map_of_eq)
  have notin: "k0 \<notin> A"
    using none by (simp add: A_def)
  have sets: "{k. map_of (p # al) k = Some v} = (if v0 = v then insert k0 A else A)"
    using none by (auto simp: p A_def)
  have "card {k. map_of (p # al) k = Some v} = (if v0 = v then Suc (card A) else card A)"
    unfolding sets using fin notin by simp
  moreover have "length (filter (\<lambda>s. s = v) (map snd (p # al))) =
      (if v0 = v then Suc (card A) else card A)"
    using Cons.IH [OF d] by (simp add: p A_def)
  ultimately show ?case by simp
qed

lemma changesRequestedCount_card:
  "changesRequestedCount (latestReviews reviews) =
     card {u. map_of (latestReviews reviews) u = Some ''CHANGES_REQUESTED''}"
  unfolding changesRequestedCount_def
  by (rule count_values_card) (simp add: latestReviews_def distinct_fold_update)

lemma approvalCount_card:
  "approvalCount (latestReviews reviews) =
     card {u. map_of (latestReviews reviews) u = Some ''APPROVED''}"
  unfolding approvalCount_def
  by (rule count_values_card) (simp add: latestReviews_def distinct_fold_update)

lemma checksBlocking_keys:
  assumes "fst ` set (checkConclusions runs1) = fst ` set (checkConclusions runs2)"
  shows "checksBlocking (checkConclusions runs1) = checksBlocking (checkConclusions runs2)"
proof -
  have "fst ` set (checkConclusions runs) = propertyKey ` conclusion ` set runs" for runs
    unfolding checkConclusions_def by (simp add: keys_fold_update image_image)
  with assms have "propertyKey ` conclusion ` set runs1 = propertyKey ` conclusion ` set runs2"
    by simp
  then have "map_of (checkConclusions runs1) key = map_of (checkConclusions runs2) key" for key
    by (simp only: map_of_checkConclusions)
  then show ?thesis
    by (simp only: checksBlocking_def)
qed

section \<open>Rules 1 to 3\<close>

text \<open>
  C6. A pull request whose state is not \<open>open\<close> is blocked as not open whatever the
  platform answers and whatever the configuration is: the run logs that one line, issues
  no merge request and sets no timer.
\<close>

theorem not_open_blocked:
  assumes "state pullRequest \<noteq> ''open''"
  shows "updatePullRequest gh pullRequest config =
           ([Log (base_repo_name pullRequest) (base_user_login pullRequest) (number pullRequest)
               Not_open], None)
         \<and> decision (updatePullRequest gh pullRequest config) = Some (BLOCKED Not_open)
         \<and> merges (fst (updatePullRequest gh pullRequest config)) = []
         \<and> timers (fst (updatePullRequest gh pullRequest config)) = []"
  using assms by (simp add: updatePullRequest_def decision_def merges_def timers_def)

theorem not_open_blocked_witness:
  "state (pr_open\<lparr>state := ''closed''\<rparr>) \<noteq> ''open''
   \<and> updatePullRequest (gh_with [] []) (pr_open\<lparr>state := ''closed''\<rparr>) defaultConfig =
       ([Log ''app'' ''acme'' 7 Not_open], None)
   \<and> decision (updatePullRequest (gh_with [] []) (pr_open\<lparr>state := ''closed''\<rparr>) defaultConfig) =
       Some (BLOCKED Not_open)"
  using not_open_blocked [of "pr_open\<lparr>state := ''closed''\<rparr>" "gh_with [] []" defaultConfig]
  by (simp add: pr_open_def gh_with_def decision_def merges_def timers_def)

text \<open>
  C5. An open, unmerged pull request whose mergeable flag is not true (false, or null)
  is blocked as not mergeable, whatever the reviews and the check runs are; no merge
  request is issued.
\<close>

theorem not_mergeable_blocked:
  assumes "state pullRequest = ''open''" and "\<not> merged pullRequest"
    and "mergeable pullRequest \<noteq> Some True"
  shows "updatePullRequest gh pullRequest config =
           ([Log (base_repo_name pullRequest) (base_user_login pullRequest) (number pullRequest)
               (Not_mergeable (mergeable pullRequest))], None)
         \<and> decision (updatePullRequest gh pullRequest config) =
             Some (BLOCKED (Not_mergeable (mergeable pullRequest)))
         \<and> decision (updatePullRequest gh pullRequest config) \<noteq> Some MERGE
         \<and> merges (fst (updatePullRequest gh pullRequest config)) = []"
  using assms
  by (simp add: updatePullRequest_def decision_def merges_def timers_def truthy_def)

theorem not_mergeable_blocked_witness:
  "state (pr_open\<lparr>mergeable := None\<rparr>) = ''open'' \<and> \<not> merged (pr_open\<lparr>mergeable := None\<rparr>)
   \<and> mergeable (pr_open\<lparr>mergeable := None\<rparr>) \<noteq> Some True
   \<and> decision (updatePullRequest (gh_with [] []) (pr_open\<lparr>mergeable := None\<rparr>) defaultConfig) =
       Some (BLOCKED (Not_mergeable None))"
  using not_mergeable_blocked [of "pr_open\<lparr>mergeable := None\<rparr>" "gh_with [] []" defaultConfig]
  by (simp add: pr_open_def gh_with_def decision_def merges_def timers_def)

section \<open>The review aggregation\<close>

text \<open>
  C3. The mapping has one entry per reviewer of the input and no other. The entry of a
  reviewer is the state of the review that no other review of the same reviewer beats:
  every other one is older, or as old and not later in the input. The empty list gives
  the empty mapping.
\<close>

theorem latestReviews_latest:
  "distinct (map fst (latestReviews reviews))
   \<and> fst ` set (latestReviews reviews) = user_login ` set reviews
   \<and> (\<forall>i<length reviews.
        (\<forall>j<length reviews. user_login (reviews ! j) = user_login (reviews ! i) \<longrightarrow>
           submitted_at (reviews ! j) < submitted_at (reviews ! i) \<or>
           (submitted_at (reviews ! j) = submitted_at (reviews ! i) \<and> j \<le> i)) \<longrightarrow>
        map_of (latestReviews reviews) (user_login (reviews ! i)) = Some (review_state (reviews ! i)))
   \<and> latestReviews [] = []"
proof (intro conjI allI impI)
  show "distinct (map fst (latestReviews reviews))"
    unfolding latestReviews_def by (rule distinct_fold_update) simp
  show "fst ` set (latestReviews reviews) = user_login ` set reviews"
    unfolding latestReviews_def by (simp add: keys_fold_update)
  show "latestReviews [] = []"
    by (simp add: latestReviews_def)
next
  fix i
  assume i: "i < length reviews"
    and dom: "\<forall>j<length reviews. user_login (reviews ! j) = user_login (reviews ! i) \<longrightarrow>
           submitted_at (reviews ! j) < submitted_at (reviews ! i) \<or>
           (submitted_at (reviews ! j) = submitted_at (reviews ! i) \<and> j \<le> i)"
  let ?u = "user_login (reviews ! i)"
  let ?L = "filter (\<lambda>r. user_login r = ?u) (sort_key submitted_at reviews)"
  have "last ?L = reviews ! i"
    using i dom by (intro latest_wins) auto
  moreover have "reviews ! i \<in> set ?L" using i by simp
  then have "?L \<noteq> []" by (metis empty_iff empty_set)
  ultimately show "map_of (latestReviews reviews) ?u = Some (review_state (reviews ! i))"
    unfolding latestReviews_def by (simp add: map_of_fold_update)
qed

theorem latestReviews_latest_witness:
  "latestReviews reviews_tie = [(''bob'', ''COMMENTED''), (''alice'', ''CHANGES_REQUESTED'')]
   \<and> map_of (latestReviews reviews_tie) ''alice'' = Some ''CHANGES_REQUESTED''
   \<and> user_login ` set reviews_tie = {''alice'', ''bob''}"
proof -
  have len: "length reviews_tie = 4" by (simp add: reviews_tie_def)
  have dom: "\<forall>j<length reviews_tie. user_login (reviews_tie ! j) = user_login (reviews_tie ! 1) \<longrightarrow>
           submitted_at (reviews_tie ! j) < submitted_at (reviews_tie ! 1) \<or>
           (submitted_at (reviews_tie ! j) = submitted_at (reviews_tie ! 1) \<and> j \<le> 1)"
  proof (rule allI, rule impI)
    fix j assume "j < length reviews_tie"
    then have "j = 0 \<or> j = 1 \<or> j = 2 \<or> j = 3" using len by auto
    then show "user_login (reviews_tie ! j) = user_login (reviews_tie ! 1) \<longrightarrow>
           submitted_at (reviews_tie ! j) < submitted_at (reviews_tie ! 1) \<or>
           (submitted_at (reviews_tie ! j) = submitted_at (reviews_tie ! 1) \<and> j \<le> 1)"
      by (auto simp: reviews_tie_def)
  qed
  have one: "1 < length reviews_tie" using len by simp
  have "\<forall>i<length reviews_tie.
        (\<forall>j<length reviews_tie. user_login (reviews_tie ! j) = user_login (reviews_tie ! i) \<longrightarrow>
           submitted_at (reviews_tie ! j) < submitted_at (reviews_tie ! i) \<or>
           (submitted_at (reviews_tie ! j) = submitted_at (reviews_tie ! i) \<and> j \<le> i)) \<longrightarrow>
        map_of (latestReviews reviews_tie) (user_login (reviews_tie ! i)) =
          Some (review_state (reviews_tie ! i))"
    using latestReviews_latest [of reviews_tie] by (elim conjE)
  then have "map_of (latestReviews reviews_tie) (user_login (reviews_tie ! 1)) =
      Some (review_state (reviews_tie ! 1))"
    using one dom by blast
  moreover have "latestReviews reviews_tie = [(''bob'', ''COMMENTED''), (''alice'', ''CHANGES_REQUESTED'')]"
    by (simp add: latestReviews_def reviews_tie_def)
  moreover have "user_login ` set reviews_tie = {''alice'', ''bob''}"
    by (auto simp: reviews_tie_def)
  ultimately show ?thesis by (simp add: reviews_tie_def)
qed

section \<open>The check aggregation\<close>

text \<open>
  C4. \<open>allChecksCompleted\<close> holds exactly when every run has status \<open>completed\<close>.
  The keys of \<open>checkConclusions\<close> are the property keys of the runs' conclusions, each
  once and each with value true; when no conclusion is null they are the conclusions
  themselves. The empty list is all completed and has no conclusion.
\<close>

theorem check_aggregate:
  "(allChecksCompleted checkRuns \<longleftrightarrow> (\<forall>r\<in>set checkRuns. status r = ''completed''))
   \<and> fst ` set (checkConclusions checkRuns) = propertyKey ` conclusion ` set checkRuns
   \<and> distinct (map fst (checkConclusions checkRuns))
   \<and> snd ` set (checkConclusions checkRuns) \<subseteq> {True}
   \<and> ((\<forall>r\<in>set checkRuns. conclusion r \<noteq> None) \<longrightarrow>
        Some ` fst ` set (checkConclusions checkRuns) = conclusion ` set checkRuns)
   \<and> allChecksCompleted [] \<and> checkConclusions [] = []"
proof -
  have keys: "fst ` set (checkConclusions checkRuns) = propertyKey ` conclusion ` set checkRuns"
    unfolding checkConclusions_def by (simp add: keys_fold_update image_image)
  have "Some ` propertyKey ` conclusion ` set checkRuns = conclusion ` set checkRuns"
    if "\<forall>r\<in>set checkRuns. conclusion r \<noteq> None"
  proof -
    have "Some (propertyKey (conclusion r)) = conclusion r" if "r \<in> set checkRuns" for r
      using that \<open>\<forall>r\<in>set checkRuns. conclusion r \<noteq> None\<close>
      by (cases "conclusion r") (auto simp: propertyKey_def)
    then show ?thesis by (auto simp: image_iff) 
  qed
  moreover have "distinct (map fst (checkConclusions checkRuns))"
    unfolding checkConclusions_def by (rule distinct_fold_update) simp
  moreover have "snd ` set (checkConclusions checkRuns) \<subseteq> {True}"
    unfolding checkConclusions_def by (rule values_fold_update) simp
  moreover have "allChecksCompleted checkRuns \<longleftrightarrow> (\<forall>r\<in>set checkRuns. status r = ''completed'')"
    by (simp add: allChecksCompleted_def list_all_iff)
  ultimately show ?thesis
    using keys by (simp add: allChecksCompleted_def checkConclusions_def)
qed

theorem check_aggregate_witness:
  "allChecksCompleted [check_success, check_failure, check_success]
   \<and> \<not> allChecksCompleted [check_success, check_pending]
   \<and> checkConclusions [check_success, check_failure, check_success] =
       [(''success'', True), (''failure'', True)]
   \<and> Some ` fst ` set (checkConclusions [check_success, check_failure, check_success]) =
       {Some ''success'', Some ''failure''}"
  using check_aggregate [of "[check_success, check_failure, check_success]"]
    check_aggregate [of "[check_success, check_pending]"]
  by (simp add: check_success_def check_failure_def check_pending_def checkConclusions_def
      propertyKey_def insert_commute)


section \<open>Rules 4 and 5\<close>

text \<open>
  C2. For a pull request that passes rules 1 to 3 and whose reviews were read, the run is
  blocked for requested changes exactly when the number of reviewers whose latest state
  is \<open>CHANGES_REQUESTED\<close> exceeds \<open>min-approvals\<close>; and when it does not, the run is
  blocked for missing approvals exactly when the number of reviewers whose latest state
  is \<open>APPROVED\<close> is below \<open>max-requested-changes\<close>.
\<close>

theorem review_thresholds:
  assumes "state pullRequest = ''open''" and "\<not> merged pullRequest"
    and "mergeable pullRequest = Some True"
    and reviews: "pullRequests_getReviews gh (base_user_login pullRequest)
        (base_repo_name pullRequest) (number pullRequest) = Inr reviews"
  shows "((\<exists>c m. decision (updatePullRequest gh pullRequest config) =
              Some (BLOCKED (Changes_requested c m))) \<longleftrightarrow>
          int (card {u. map_of (latestReviews reviews) u = Some ''CHANGES_REQUESTED''})
            > min_approvals config)
         \<and> (\<not> int (card {u. map_of (latestReviews reviews) u = Some ''CHANGES_REQUESTED''})
                > min_approvals config \<longrightarrow>
             ((\<exists>c m. decision (updatePullRequest gh pullRequest config) =
                 Some (BLOCKED (Not_enough_approvals c m))) \<longleftrightarrow>
              int (card {u. map_of (latestReviews reviews) u = Some ''APPROVED''})
                < max_requested_changes config))"
proof -
  let ?rej = "changesRequestedCount (latestReviews reviews)"
  let ?app = "approvalCount (latestReviews reviews)"
  have r4: "(\<exists>c m. decision (updatePullRequest gh pullRequest config) =
              Some (BLOCKED (Changes_requested c m))) \<longleftrightarrow> int ?rej > min_approvals config"
    using assms by (auto simp: run_defs split: sum.splits)
  have r5: "(\<exists>c m. decision (updatePullRequest gh pullRequest config) =
              Some (BLOCKED (Not_enough_approvals c m))) \<longleftrightarrow> int ?app < max_requested_changes config"
    if "\<not> int ?rej > min_approvals config"
    using assms that by (auto simp: run_defs split: sum.splits)
  show ?thesis
    using r4 r5 by (simp only: changesRequestedCount_card approvalCount_card) blast
qed

theorem review_thresholds_witness:
  "decision (updatePullRequest (gh_with reviews_two_rejections []) pr_open defaultConfig) =
     Some (BLOCKED (Changes_requested 2 1))
   \<and> int (card {u. map_of (latestReviews reviews_two_rejections) u = Some ''CHANGES_REQUESTED''})
       > min_approvals defaultConfig"
proof -
  have d: "decision (updatePullRequest (gh_with reviews_two_rejections []) pr_open defaultConfig) =
     Some (BLOCKED (Changes_requested 2 1))"
    by (simp add: run_defs gh_with_def pr_open_def defaultConfig_def latestReviews_def
        reviews_two_rejections_def changesRequestedCount_def)
  have "state pr_open = ''open''" "\<not> merged pr_open" "mergeable pr_open = Some True"
    "pullRequests_getReviews (gh_with reviews_two_rejections []) (base_user_login pr_open)
        (base_repo_name pr_open) (number pr_open) = Inr reviews_two_rejections"
    by (simp_all add: pr_open_def gh_with_def)
  from review_thresholds [OF this, of defaultConfig] d show ?thesis
    by blast
qed


text \<open>
  C10. Under the default configuration the approval rule blocks no run: no number of
  approvals is below 0. An open, unmerged, mergeable pull request without reviews whose
  check runs (none, or any number) are all completed with conclusion \<open>success\<close> gets the
  merge request.
\<close>

theorem default_config_approvals:
  "(\<forall>c m. decision (updatePullRequest gh pullRequest defaultConfig) \<noteq>
       Some (BLOCKED (Not_enough_approvals c m)))
   \<and> \<not> int (approvalCount (latestReviews reviews)) < max_requested_changes defaultConfig
   \<and> (state pullRequest = ''open'' \<and> \<not> merged pullRequest \<and> mergeable pullRequest = Some True
       \<and> pullRequests_getReviews gh (base_user_login pullRequest) (base_repo_name pullRequest)
            (number pullRequest) = Inr []
       \<and> checks_listForRef gh (base_user_login pullRequest) (base_repo_name pullRequest)
            (head_sha pullRequest) ''latest'' = Inr checkRuns
       \<and> (\<forall>r\<in>set checkRuns. status r = ''completed'' \<and> conclusion r = Some ''success'')
      \<longrightarrow> decision (updatePullRequest gh pullRequest defaultConfig) = Some MERGE
        \<and> merges (fst (updatePullRequest gh pullRequest defaultConfig)) =
            [Merge (base_user_login pullRequest) (base_repo_name pullRequest)
               (number pullRequest) ''merge''])"
proof (intro conjI allI impI)
  fix c m
  show "decision (updatePullRequest gh pullRequest defaultConfig) \<noteq>
       Some (BLOCKED (Not_enough_approvals c m))"
    by (simp add: run_defs defaultConfig_def split: sum.splits)
next
  show "\<not> int (approvalCount (latestReviews reviews)) < max_requested_changes defaultConfig"
    by (simp add: defaultConfig_def)
next
  assume a: "state pullRequest = ''open'' \<and> \<not> merged pullRequest \<and> mergeable pullRequest = Some True
       \<and> pullRequests_getReviews gh (base_user_login pullRequest) (base_repo_name pullRequest)
            (number pullRequest) = Inr []
       \<and> checks_listForRef gh (base_user_login pullRequest) (base_repo_name pullRequest)
            (head_sha pullRequest) ''latest'' = Inr checkRuns
       \<and> (\<forall>r\<in>set checkRuns. status r = ''completed'' \<and> conclusion r = Some ''success'')"
  then have c: "allChecksCompleted checkRuns"
    by (simp add: allChecksCompleted_def list_all_iff)
  have b: "\<not> checksBlocking (checkConclusions checkRuns)"
    using a by (auto simp: checksBlocking_iff)
  have l: "latestReviews [] = []" by (simp add: latestReviews_def)
  show "decision (updatePullRequest gh pullRequest defaultConfig) = Some MERGE"
    using a b c l
    by (simp add: run_defs defaultConfig_def changesRequestedCount_def approvalCount_def
        split: sum.splits)
  show "merges (fst (updatePullRequest gh pullRequest defaultConfig)) =
            [Merge (base_user_login pullRequest) (base_repo_name pullRequest)
               (number pullRequest) ''merge'']"
    using a b c l
    by (simp add: run_defs defaultConfig_def changesRequestedCount_def approvalCount_def
        split: sum.splits)
qed

theorem default_config_approvals_witness:
  "decision (updatePullRequest (gh_with [] []) pr_open defaultConfig) = Some MERGE
   \<and> decision (updatePullRequest (gh_with [] [check_success]) pr_open defaultConfig) = Some MERGE
   \<and> merges (fst (updatePullRequest (gh_with [] []) pr_open defaultConfig)) =
       [Merge ''acme'' ''app'' 7 ''merge'']"
  using default_config_approvals [of "gh_with [] []" pr_open "[]" "[]"]
    default_config_approvals [of "gh_with [] [check_success]" pr_open "[]" "[check_success]"]
  by (simp add: gh_with_def pr_open_def check_success_def)

section \<open>Rules 6 to 8\<close>

text \<open>
  C8. When rules 1 to 5 pass and some check run is not completed, the run is pending: it
  ends normally, issues no merge request and sets exactly one timer, of 60000 ms. What
  the timer schedules is an evaluation: its callback, whenever it runs, is
  \<open>updatePullRequest\<close> on the pull request and configuration of the pending run.
\<close>

theorem pending_checks_recheck:
  assumes "state pullRequest = ''open''" and "\<not> merged pullRequest"
    and "mergeable pullRequest = Some True"
    and reviews: "pullRequests_getReviews gh (base_user_login pullRequest)
        (base_repo_name pullRequest) (number pullRequest) = Inr reviews"
    and "\<not> int (changesRequestedCount (latestReviews reviews)) > min_approvals config"
    and "\<not> int (approvalCount (latestReviews reviews)) < max_requested_changes config"
    and checks: "checks_listForRef gh (base_user_login pullRequest)
        (base_repo_name pullRequest) (head_sha pullRequest) ''latest'' = Inr checkRuns"
    and pending: "\<exists>r\<in>set checkRuns. status r \<noteq> ''completed''"
  shows "decision (updatePullRequest gh pullRequest config) = Some (PENDING 60000)
         \<and> snd (updatePullRequest gh pullRequest config) = None
         \<and> merges (fst (updatePullRequest gh pullRequest config)) = []
         \<and> timers (fst (updatePullRequest gh pullRequest config)) =
             [SetTimeout pullRequest config 60000]
         \<and> (\<forall>gh'. runTimer gh' (SetTimeout pullRequest config 60000) =
               updatePullRequest gh' pullRequest config)"
proof -
  have "\<not> allChecksCompleted checkRuns"
    using pending by (simp add: allChecksCompleted_def list_all_iff)
  then have "decision (updatePullRequest gh pullRequest config) = Some (PENDING 60000)
         \<and> snd (updatePullRequest gh pullRequest config) = None
         \<and> merges (fst (updatePullRequest gh pullRequest config)) = []
         \<and> timers (fst (updatePullRequest gh pullRequest config)) =
             [SetTimeout pullRequest config 60000]"
    using assms(1-7) by (simp add: run_defs)
  moreover have "\<forall>gh'. runTimer gh' (SetTimeout pullRequest config 60000) =
               updatePullRequest gh' pullRequest config"
    by simp
  ultimately show ?thesis by simp
qed

theorem pending_checks_recheck_witness:
  "decision (updatePullRequest (gh_with [] [check_pending]) pr_open defaultConfig) =
     Some (PENDING 60000)
   \<and> merges (fst (updatePullRequest (gh_with [] [check_pending]) pr_open defaultConfig)) = []
   \<and> timers (fst (updatePullRequest (gh_with [] [check_pending]) pr_open defaultConfig)) =
       [SetTimeout pr_open defaultConfig 60000]
   \<and> runTimer (gh_with [] [check_pending]) (SetTimeout pr_open defaultConfig 60000) =
       updatePullRequest (gh_with [] [check_pending]) pr_open defaultConfig
   \<and> decision (runTimer (gh_with [] [check_pending]) (SetTimeout pr_open defaultConfig 60000)) =
       Some (PENDING 60000)
   \<and> decision (runTimer (gh_with [] [check_success]) (SetTimeout pr_open defaultConfig 60000)) =
       Some MERGE
   \<and> decision (runTimer (gh_with [] [check_failure]) (SetTimeout pr_open defaultConfig 60000)) =
       Some (BLOCKED Blocking_checks)"
proof -
  have p: "\<exists>r\<in>set [check_pending]. status r \<noteq> ''completed''"
    by (simp add: check_pending_def)
  have pre: "state pr_open = ''open''" "\<not> merged pr_open" "mergeable pr_open = Some True"
    "pullRequests_getReviews (gh_with [] [check_pending]) (base_user_login pr_open)
        (base_repo_name pr_open) (number pr_open) = Inr []"
    "\<not> int (changesRequestedCount (latestReviews [])) > min_approvals defaultConfig"
    "\<not> int (approvalCount (latestReviews [])) < max_requested_changes defaultConfig"
    "checks_listForRef (gh_with [] [check_pending]) (base_user_login pr_open)
        (base_repo_name pr_open) (head_sha pr_open) ''latest'' = Inr [check_pending]"
    by (simp_all add: gh_with_def pr_open_def defaultConfig_def latestReviews_def
        changesRequestedCount_def approvalCount_def)
  note t = pending_checks_recheck [OF pre p]
  have later: "\<forall>gh'. runTimer gh' (SetTimeout pr_open defaultConfig 60000) =
      updatePullRequest gh' pr_open defaultConfig"
    using t by (elim conjE)
  have "decision (updatePullRequest (gh_with [] [check_success]) pr_open defaultConfig) =
      Some MERGE"
    by (simp add: run_defs gh_with_def pr_open_def defaultConfig_def latestReviews_def
        changesRequestedCount_def approvalCount_def allChecksCompleted_def check_success_def
        checkConclusions_def checksBlocking_def propertyKey_def)
  moreover have "decision (updatePullRequest (gh_with [] [check_failure]) pr_open
      defaultConfig) = Some (BLOCKED Blocking_checks)"
    by (simp add: run_defs gh_with_def pr_open_def defaultConfig_def latestReviews_def
        changesRequestedCount_def approvalCount_def allChecksCompleted_def check_failure_def
        checkConclusions_def checksBlocking_def propertyKey_def)
  ultimately show ?thesis
    using t later by (simp only: simp_thms)
qed


text \<open>
  C7. When the reviews and the check runs were read, all check runs are completed and one
  of them concluded \<open>failure\<close>, \<open>cancelled\<close>, \<open>timed_out\<close> or \<open>action_required\<close>, the
  run is blocked whatever the reviews are: no merge request, no timer. When rules 1 to 5
  pass, the reason is the blocking check.
\<close>

theorem blocking_conclusion_blocked:
  assumes reviews: "pullRequests_getReviews gh (base_user_login pullRequest)
        (base_repo_name pullRequest) (number pullRequest) = Inr reviews"
    and checks: "checks_listForRef gh (base_user_login pullRequest)
        (base_repo_name pullRequest) (head_sha pullRequest) ''latest'' = Inr checkRuns"
    and completed: "\<forall>r\<in>set checkRuns. status r = ''completed''"
    and blocking: "\<exists>r\<in>set checkRuns. conclusion r \<in>
        {Some ''failure'', Some ''cancelled'', Some ''timed_out'', Some ''action_required''}"
  shows "(\<exists>m. decision (updatePullRequest gh pullRequest config) = Some (BLOCKED m))
         \<and> decision (updatePullRequest gh pullRequest config) \<noteq> Some MERGE
         \<and> merges (fst (updatePullRequest gh pullRequest config)) = []
         \<and> timers (fst (updatePullRequest gh pullRequest config)) = []
         \<and> (state pullRequest = ''open'' \<and> \<not> merged pullRequest
              \<and> mergeable pullRequest = Some True
              \<and> \<not> int (changesRequestedCount (latestReviews reviews)) > min_approvals config
              \<and> \<not> int (approvalCount (latestReviews reviews)) < max_requested_changes config
            \<longrightarrow> decision (updatePullRequest gh pullRequest config) = Some (BLOCKED Blocking_checks))"
proof -
  have c: "allChecksCompleted checkRuns"
    using completed by (simp add: allChecksCompleted_def list_all_iff)
  have b: "checksBlocking (checkConclusions checkRuns)"
    using blocking by (simp only: checksBlocking_iff)
  show ?thesis
    using reviews checks c b by (simp add: run_defs)
qed

theorem blocking_conclusion_blocked_witness:
  "decision (updatePullRequest (gh_with [] [check_success, check_failure]) pr_open defaultConfig) =
     Some (BLOCKED Blocking_checks)
   \<and> merges (fst (updatePullRequest (gh_with [] [check_success, check_failure]) pr_open
        defaultConfig)) = []"
proof -
  have "\<forall>r\<in>set [check_success, check_failure]. status r = ''completed''"
    by (simp add: check_success_def check_failure_def)
  moreover have "\<exists>r\<in>set [check_success, check_failure]. conclusion r \<in>
        {Some ''failure'', Some ''cancelled'', Some ''timed_out'', Some ''action_required''}"
    by (simp add: check_success_def check_failure_def)
  ultimately show ?thesis
    using blocking_conclusion_blocked [of "gh_with [] [check_success, check_failure]" pr_open "[]"
        "[check_success, check_failure]" defaultConfig]
    by (simp add: gh_with_def pr_open_def defaultConfig_def latestReviews_def
        changesRequestedCount_def approvalCount_def)
qed

section \<open>Determinism\<close>

text \<open>
  C9. The decision is a function of the pull request, the reviewer-to-state mapping, the
  configuration, the completion flag and the set of conclusions: two runs that agree on
  these decide alike, whatever else differs in what the platform answered.
\<close>

theorem decision_deterministic:
  assumes reviews1: "pullRequests_getReviews gh1 (base_user_login pullRequest)
        (base_repo_name pullRequest) (number pullRequest) = Inr reviews1"
    and reviews2: "pullRequests_getReviews gh2 (base_user_login pullRequest)
        (base_repo_name pullRequest) (number pullRequest) = Inr reviews2"
    and same_reviews: "map_of (latestReviews reviews1) = map_of (latestReviews reviews2)"
    and checks1: "checks_listForRef gh1 (base_user_login pullRequest)
        (base_repo_name pullRequest) (head_sha pullRequest) ''latest'' = Inr checkRuns1"
    and checks2: "checks_listForRef gh2 (base_user_login pullRequest)
        (base_repo_name pullRequest) (head_sha pullRequest) ''latest'' = Inr checkRuns2"
    and same_completed: "allChecksCompleted checkRuns1 = allChecksCompleted checkRuns2"
    and same_conclusions: "fst ` set (checkConclusions checkRuns1) =
        fst ` set (checkConclusions checkRuns2)"
  shows "decision (updatePullRequest gh1 pullRequest config) =
         decision (updatePullRequest gh2 pullRequest config)"
proof -
  have rej: "changesRequestedCount (latestReviews reviews1) =
      changesRequestedCount (latestReviews reviews2)"
    by (simp only: changesRequestedCount_card same_reviews)
  have app: "approvalCount (latestReviews reviews1) = approvalCount (latestReviews reviews2)"
    by (simp only: approvalCount_card same_reviews)
  have blk: "checksBlocking (checkConclusions checkRuns1) =
      checksBlocking (checkConclusions checkRuns2)"
    using same_conclusions by (rule checksBlocking_keys)
  show ?thesis
    using reviews1 reviews2 checks1 checks2 same_completed rej app blk
    by (simp add: run_defs split: sum.splits)
qed

theorem decision_deterministic_witness:
  "map_of (latestReviews reviews_once) = map_of (latestReviews reviews_twice)
   \<and> reviews_once \<noteq> reviews_twice
   \<and> decision (updatePullRequest (gh_with reviews_once [check_success]) pr_open defaultConfig) =
     decision (updatePullRequest (gh_with reviews_twice [check_success, check_success]) pr_open
       defaultConfig)
   \<and> decision (updatePullRequest (gh_with reviews_once [check_success]) pr_open defaultConfig) =
     Some MERGE"
proof -
  have m: "map_of (latestReviews reviews_once) = map_of (latestReviews reviews_twice)"
    by (simp add: latestReviews_def reviews_once_def reviews_twice_def)
  have c: "allChecksCompleted [check_success] = allChecksCompleted [check_success, check_success]"
    by (simp add: allChecksCompleted_def check_success_def)
  have k: "fst ` set (checkConclusions [check_success]) =
      fst ` set (checkConclusions [check_success, check_success])"
    by (simp add: checkConclusions_def check_success_def)
  have "decision (updatePullRequest (gh_with reviews_once [check_success]) pr_open defaultConfig) =
     decision (updatePullRequest (gh_with reviews_twice [check_success, check_success]) pr_open
       defaultConfig)"
    by (rule decision_deterministic [OF _ _ m _ _ c k]) (simp_all add: gh_with_def)
  moreover have "decision (updatePullRequest (gh_with reviews_once [check_success]) pr_open
      defaultConfig) = Some MERGE"
    by (simp add: run_defs gh_with_def pr_open_def defaultConfig_def latestReviews_def
        reviews_once_def changesRequestedCount_def approvalCount_def allChecksCompleted_def
        check_success_def checkConclusions_def checksBlocking_def propertyKey_def)
  moreover have "reviews_once \<noteq> reviews_twice"
    by (simp add: reviews_once_def reviews_twice_def)
  ultimately show ?thesis using m by simp
qed


section \<open>The retry\<close>

text \<open>
  C1. The claim has the retry refetch the pull request by owner, repository and number, so
  that rules 1 to 3 see its state at retry time. The callback of the timer is
  \<open>updatePullRequest(context, pullRequest, config)\<close> on the object of the pending run, and
  no request for the pull request is sent. Two runs of the code show what follows.
  Pull request 7 of acme/app is open and pending when the timer is set.
  \<^item> It is closed before the timer fires, and its check succeeds. The retry issues the
    merge request; an evaluation of the pull request as the platform has it, and
    \<open>updateCheckPullRequests\<close>, which fetches it by owner, repository and number, are
    blocked as not open.
  \<^item> A commit is pushed before the timer fires; the check of the new head fails, that of
    the old head succeeds. The retry lists the checks of the old head and issues the
    merge request; \<open>updateCheckPullRequests\<close> is blocked by the failed check.
\<close>

theorem retry_merges_on_stale_snapshot:
  "decision (updatePullRequest (gh_with [] [check_pending]) pr_open defaultConfig) =
     Some (PENDING 60000)
   \<and> timers (fst (updatePullRequest (gh_with [] [check_pending]) pr_open defaultConfig)) =
       [SetTimeout pr_open defaultConfig 60000]
   \<and> pullRequests_get gh_late (base_user_login pr_open) (base_repo_name pr_open) (number pr_open) =
       Inr (pr_open\<lparr>state := ''closed''\<rparr>)
   \<and> decision (updatePullRequest gh_late (pr_open\<lparr>state := ''closed''\<rparr>) defaultConfig) =
       Some (BLOCKED Not_open)
   \<and> decision (updateCheckPullRequests gh_late (base_user_login pr_open)
         (base_repo_name pr_open) [number pr_open] defaultConfig) = Some (BLOCKED Not_open)
   \<and> decision (runTimer gh_late (SetTimeout pr_open defaultConfig 60000)) = Some MERGE
   \<and> merges (fst (runTimer gh_late (SetTimeout pr_open defaultConfig 60000))) =
       [Merge ''acme'' ''app'' 7 ''merge'']
   \<and> pullRequests_get gh_pushed (base_user_login pr_open) (base_repo_name pr_open)
         (number pr_open) = Inr (pr_open\<lparr>head_sha := ''def''\<rparr>)
   \<and> decision (updateCheckPullRequests gh_pushed (base_user_login pr_open)
         (base_repo_name pr_open) [number pr_open] defaultConfig) =
       Some (BLOCKED Blocking_checks)
   \<and> decision (runTimer gh_pushed (SetTimeout pr_open defaultConfig 60000)) = Some MERGE
   \<and> merges (fst (runTimer gh_pushed (SetTimeout pr_open defaultConfig 60000))) =
       [Merge ''acme'' ''app'' 7 ''merge'']"
  by (simp add: run_defs gh_with_def gh_late_def gh_pushed_def pr_open_def defaultConfig_def
      latestReviews_def changesRequestedCount_def approvalCount_def allChecksCompleted_def
      check_pending_def check_success_def check_failure_def checkConclusions_def
      checksBlocking_def propertyKey_def)

end
